theory Spec2Isabelle
  imports Main "HOL-Library.Sublist"
begin

section \<open>Model of \<^verbatim>\<open>update_api_keys.py\<close>\<close>

text \<open>
  The script walks \<^verbatim>\<open>src/lib/models/locked\<close>, reads every \<^verbatim>\<open>*.ts\<close> file as text,
  finds three fields with regular expressions, looks an annotation value up in two constant
  dictionaries and rewrites the file with \<^verbatim>\<open>re.sub\<close>.

  A file is the list of the characters stored in it, and a text is the \<^verbatim>\<open>str\<close> that
  Python's text-mode \<^verbatim>\<open>read\<close> returns and \<^verbatim>\<open>write\<close> takes. A \<^typ>\<open>char\<close> stands for the code
  point of the same number, so the model covers files whose code points are below 256. The
  codec between bytes and characters is the same in both directions and is left out; the
  translation of line endings is not the same in both directions and is modelled.
\<close>

subsection \<open>Text mode\<close>

text \<open>
  \<^verbatim>\<open>open(file_path, 'r')\<close> reads with universal newlines: a carriage return followed by a
  line feed, and a carriage return alone, both become one line feed.
\<close>

fun read_text :: "string \<Rightarrow> string" where
  "read_text [] = []"
| "read_text [c] = [if c = CHR 0x0D then CHR 0x0A else c]"
| "read_text (c # d # ds) =
     (if c = CHR 0x0D
      then (if d = CHR 0x0A then CHR 0x0A # read_text ds else CHR 0x0A # read_text (d # ds))
      else c # read_text (d # ds))"

text \<open>
  \<^verbatim>\<open>open(file_path, 'w')\<close> writes every line feed as \<^verbatim>\<open>os.linesep\<close>, which is a constant of the
  platform (a line feed on POSIX, a carriage return and a line feed on Windows) and a
  parameter here.
\<close>

primrec write_text :: "string \<Rightarrow> string \<Rightarrow> string" where
  "write_text linesep [] = []"
| "write_text linesep (c # cs) = (if c = CHR 0x0A then linesep else [c]) @ write_text linesep cs"

subsection \<open>Character classes of the patterns\<close>

text \<open>
  \<^verbatim>\<open>["\']\<close>, \<^verbatim>\<open>\s\<close> and \<^verbatim>\<open>\w\<close> as \<^verbatim>\<open>re\<close> reads them in a \<^verbatim>\<open>str\<close> pattern (Unicode
  whitespace, and alphanumerics with the underscore), on the code points below 256.
\<close>

definition is_quote :: "char \<Rightarrow> bool" where
  \<open>is_quote c = (c = CHR ''"'' \<or> c = CHR 0x27)\<close>

definition not_quote :: "char \<Rightarrow> bool" where
  "not_quote c = (\<not> is_quote c)"

definition is_space :: "char \<Rightarrow> bool" where
  "is_space c =
     (let n = (of_char c :: nat)
      in (9 \<le> n \<and> n \<le> 13) \<or> (28 \<le> n \<and> n \<le> 32) \<or> n = 133 \<or> n = 160)"

definition is_word :: "char \<Rightarrow> bool" where
  "is_word c =
     (let n = (of_char c :: nat)
      in (48 \<le> n \<and> n \<le> 57) \<or> (65 \<le> n \<and> n \<le> 90) \<or> n = 95 \<or> (97 \<le> n \<and> n \<le> 122)
         \<or> n = 170 \<or> n = 178 \<or> n = 179 \<or> n = 181 \<or> n = 185 \<or> n = 186
         \<or> (188 \<le> n \<and> n \<le> 190) \<or> (192 \<le> n \<and> n \<le> 214) \<or> (216 \<le> n \<and> n \<le> 246)
         \<or> 248 \<le> n)"

subsection \<open>The constant tables\<close>

definition API_KEY_MAPPING :: "(string \<times> string) \<rightharpoonup> string" where
  "API_KEY_MAPPING = map_of
     [((''kie_ai'', ''image_editing''), ''KIE_AI_API_KEY_IMAGE_EDITING''),
      ((''kie_ai'', ''image_to_video''), ''KIE_AI_API_KEY_IMAGE_TO_VIDEO''),
      ((''kie_ai'', ''prompt_to_image''), ''KIE_AI_API_KEY_PROMPT_TO_IMAGE''),
      ((''kie_ai'', ''prompt_to_video''), ''KIE_AI_API_KEY_PROMPT_TO_VIDEO''),
      ((''kie_ai'', ''prompt_to_audio''), ''KIE_AI_API_KEY_PROMPT_TO_AUDIO''),
      ((''runware'', ''prompt_to_image''), ''RUNWARE_API_KEY_PROMPT_TO_IMAGE''),
      ((''runware'', ''image_editing''), ''RUNWARE_API_KEY_IMAGE_EDITING''),
      ((''runware'', ''image_to_video''), ''RUNWARE_API_KEY_IMAGE_TO_VIDEO'')]"

definition SPECIAL_MODELS :: "string \<rightharpoonup> string" where
  "SPECIAL_MODELS = map_of
     [(''8aac94cb-5625-47f4-880c-4f0fd8bd83a1'', ''KIE_AI_API_KEY_VEO3''),
      (''a5c2ec16-6294-4588-86b6-7b4182601cda'', ''KIE_AI_API_KEY_VEO3''),
      (''6e8a863e-8630-4eef-bdbb-5b41f4c883f9'', ''KIE_AI_API_KEY_VEO3''),
      (''f8e9c7a5-9d4b-6f2c-8a1e-5d7b3c9f4a6e'', ''KIE_AI_API_KEY_VEO3''),
      (''e9c8b7a6-8d5c-4f3e-9a2f-6d8b5c9e4a7f'', ''KIE_AI_API_KEY_VEO3''),
      (''d7f8c5a3-9b2e-6f4d-8c9a-5e7b3a6d4f8c'', ''KIE_AI_API_KEY_SORA2''),
      (''c6e5b4a3-5d2f-1c0e-6a9f-3d5b6c7e4a8f'', ''KIE_AI_API_KEY_SORA2''),
      (''c7e9a5f3-8d4b-6f2c-9a1e-5d8b3c7f4a6e'', ''KIE_AI_API_KEY_NANO_BANANA''),
      (''d2ffb834-fc59-4c80-bf48-c2cc25281fdd'', ''KIE_AI_API_KEY_SEEDREAM_V4''),
      (''a6c8e4f7-9d2b-5f3c-8a6e-7d4b9c5f3a8e'', ''KIE_AI_API_KEY_SEEDREAM_V4'')]"

subsection \<open>The three field patterns\<close>

text \<open>
  \<^verbatim>\<open>name\s*["\'](C+)["\']\<close> tried at the start of a text, for a literal \<^verbatim>\<open>name\<close> and a
  character class \<^verbatim>\<open>C\<close> that holds no quote: the result is group 1 and the text after the
  match. Both repetitions are greedy, and giving a character back never helps: after fewer
  spaces comes a space, after fewer class characters a class character, and the pattern wants
  a quote in either place. So the greedy attempt is the only one.
\<close>

definition field_at :: "string \<Rightarrow> (char \<Rightarrow> bool) \<Rightarrow> string \<Rightarrow> (string \<times> string) option" where
  "field_at name cls s =
     (if prefix name s then
        (case dropWhile is_space (drop (length name) s) of
           [] \<Rightarrow> None
         | q # s2 \<Rightarrow>
             if is_quote q then
               (let v = takeWhile cls s2 in
                if v = [] then None
                else (case dropWhile cls s2 of
                        [] \<Rightarrow> None
                      | q' # s4 \<Rightarrow> if is_quote q' then Some (v, s4) else None))
             else None)
      else None)"

text \<open>\<^verbatim>\<open>re.search\<close>: the match at the leftmost position that has one.\<close>

fun re_search :: "(string \<Rightarrow> 'a option) \<Rightarrow> string \<Rightarrow> 'a option" where
  "re_search at [] = at []"
| "re_search at (c # cs) = (case at (c # cs) of Some m \<Rightarrow> Some m | None \<Rightarrow> re_search at cs)"

text \<open>
  \<^verbatim>\<open>re.search(r'provider:\s*["\'](\w+)["\']', content)\<close> and its two siblings, each with
  \<^verbatim>\<open>.group(1)\<close> already taken; \<open>None\<close> is Python's \<^verbatim>\<open>None\<close>.
\<close>

definition provider_match :: "string \<Rightarrow> string option" where
  "provider_match content =
     map_option fst (re_search (field_at ''provider:'' is_word) content)"

definition content_type_match :: "string \<Rightarrow> string option" where
  "content_type_match content =
     map_option fst (re_search (field_at ''contentType:'' not_quote) content)"

definition record_id_match :: "string \<Rightarrow> string option" where
  "record_id_match content =
     map_option fst (re_search (field_at ''recordId:'' not_quote) content)"

subsection \<open>The two substitutions\<close>

text \<open>
  \<^verbatim>\<open>(contentType:\s*["\'][^"\']+["\'],)\<close> tried at the start of a text: the matched text
  (group 1) and the text after it.
\<close>

definition decl_at :: "string \<Rightarrow> (string \<times> string) option" where
  "decl_at s =
     (case field_at ''contentType:'' not_quote s of
        None \<Rightarrow> None
      | Some (v, r) \<Rightarrow>
          (case r of
             [] \<Rightarrow> None
           | c # rest \<Rightarrow>
               if c = CHR '','' then Some (take (length s - length rest) s, rest) else None))"

text \<open>The replacement template \<^verbatim>\<open>\1\n  use_api_key: "{use_api_key}",\<close> after group 1.\<close>

definition annotation :: "string \<Rightarrow> string" where
  \<open>annotation use_api_key = CHR 0x0A # ''  use_api_key: "'' @ use_api_key @ ''",''\<close>

text \<open>
  \<^verbatim>\<open>re.sub\<close> with that pattern and template: every match, found from left to right and
  never overlapping an earlier one, is followed by the annotation; the text between matches
  is copied.
\<close>

function re_sub_decl :: "string \<Rightarrow> string \<Rightarrow> string" where
  "re_sub_decl use_api_key [] = []"
| "re_sub_decl use_api_key (c # cs) =
     (case decl_at (c # cs) of
        Some (m, rest) \<Rightarrow> m @ annotation use_api_key @ re_sub_decl use_api_key rest
      | None \<Rightarrow> c # re_sub_decl use_api_key cs)"
  by pat_completeness auto
termination
proof (relation "measure (\<lambda>(k, s). length s)")
  have shorter: "length r < length s" if f: "field_at nm cls s = Some (v, r)"
    for nm cls s v r
  proof -
    from f obtain q s2 where a: "dropWhile is_space (drop (length nm) s) = q # s2"
      by (auto simp: field_at_def split: if_splits list.splits)
    with f obtain q' where b: "dropWhile cls s2 = q' # r"
      by (auto simp: field_at_def Let_def split: if_splits list.splits)
    have "length r < length s2"
      using length_dropWhile_le [of cls s2] b by simp
    moreover have "length s2 < length (drop (length nm) s)"
      using length_dropWhile_le [of is_space "drop (length nm) s"] a by simp
    ultimately show ?thesis
      by simp
  qed
  fix use_api_key :: string and c cs x m rest
  assume "decl_at (c # cs) = Some x" and "(m, rest) = x"
  then obtain v where "field_at ''contentType:'' not_quote (c # cs) = Some (v, CHR '','' # rest)"
    unfolding decl_at_def by (auto split: option.splits list.splits if_splits)
  from shorter [OF this]
  show "((use_api_key, rest), (use_api_key, c # cs)) \<in> measure (\<lambda>(k, s). length s)"
    by simp
qed simp_all

text \<open>
  \<^verbatim>\<open>re.sub\<close> for a pattern that is a literal \<open>old\<close> (not empty) and a template that is a
  literal \<open>new\<close>: every occurrence of \<open>old\<close>, found from left to right and never
  overlapping an earlier one, becomes \<open>new\<close>.
\<close>

fun replace_lit :: "string \<Rightarrow> string \<Rightarrow> string \<Rightarrow> string" where
  "replace_lit old new [] = []"
| "replace_lit old new (c # cs) =
     (if prefix old (c # cs)
      then new @ replace_lit old new (drop (length old - 1) cs)
      else c # replace_lit old new cs)"

text \<open>\<^verbatim>\<open>re.sub(r'MODEL_CONFIG\.contentType\)', r'MODEL_CONFIG.use_api_key)', new_content)\<close>\<close>

definition re_sub_ref :: "string \<Rightarrow> string" where
  "re_sub_ref new_content =
     replace_lit ''MODEL_CONFIG.contentType)'' ''MODEL_CONFIG.use_api_key)'' new_content"

subsection \<open>\<^verbatim>\<open>process_model_file\<close>\<close>

text \<open>
  The four \<^verbatim>\<open>return\<close> statements of \<^verbatim>\<open>process_model_file\<close>: line 47 (the text already
  holds \<^verbatim>\<open>use_api_key:\<close>), line 55 (no provider or no contentType), line 69 (no table has
  an entry) and line 88 (the file was written). Only the last returns \<^verbatim>\<open>True\<close>.
\<close>

datatype exit = Already_Present | Missing_Field | No_Mapping_Found | Written

fun returned :: "exit \<Rightarrow> bool" where
  "returned Written = True"
| "returned _ = False"

type_synonym path = "string list"

text \<open>
  What the script prints. \<open>No_Mapping p c\<close> is the warning of line 68,
  \<^verbatim>\<open>No mapping for provider={provider}, contentType={content_type}\<close> behind a warning sign;
  \<open>Updated_Line f\<close> is \<^verbatim>\<open>Updated: {file_path}\<close> behind a check mark (line 101);
  \<open>Summary_Header\<close> is the empty line and \<^verbatim>\<open>Summary:\<close> of line 106, and the two totals are
  lines 107 and 108.
\<close>

datatype line =
    No_Mapping string string
  | Updated_Line path
  | Summary_Header
  | Updated_Total nat
  | Skipped_Total nat

text \<open>
  The function on the characters stored in the file, for a platform with the given
  \<^verbatim>\<open>os.linesep\<close>. The result is the \<^verbatim>\<open>return\<close> taken, the characters the file holds after the
  write of lines 85 and 86 (\<open>None\<close> when the file is not opened for writing) and the lines
  printed.
\<close>

definition process_model_file :: "string \<Rightarrow> string \<Rightarrow> exit \<times> string option \<times> line list" where
  "process_model_file linesep file =
     (let content = read_text file in
      if sublist ''use_api_key:'' content then (Already_Present, None, [])
      else
        (case (provider_match content, content_type_match content) of
           (Some provider, Some content_type) \<Rightarrow>
             (let record_id = record_id_match content;
                  use_api_key =
                    (if record_id \<noteq> None \<and> the record_id \<noteq> [] \<and> the record_id \<in> dom SPECIAL_MODELS
                     then SPECIAL_MODELS (the record_id)
                     else if (provider, content_type) \<in> dom API_KEY_MAPPING
                     then API_KEY_MAPPING (provider, content_type)
                     else None)
              in (case use_api_key of
                    None \<Rightarrow> (No_Mapping_Found, None, [No_Mapping provider content_type])
                  | Some k \<Rightarrow>
                      (Written, Some (write_text linesep (re_sub_ref (re_sub_decl k content))), [])))
         | _ \<Rightarrow> (Missing_Field, None, [])))"

subsection \<open>\<^verbatim>\<open>main\<close>\<close>

text \<open>
  A path is the list of its components below the root, and \<^verbatim>\<open>file_path.name\<close> is the last
  one. The tree below the root is the list of its regular files with the characters stored
  in them, in the order in which \<^verbatim>\<open>rglob\<close> walks them; \<open>None\<close> is a root that is not a directory.
  \<^verbatim>\<open>Path.rglob\<close> never raises for such a root: its selector tests \<^verbatim>\<open>is_dir\<close> first and
  then yields nothing. Every file is taken to be readable and writable.
\<close>

definition name :: "path \<Rightarrow> string" where
  "name file_path = (if file_path = [] then [] else last file_path)"

definition rglob_ts :: "(path \<times> string) list option \<Rightarrow> (path \<times> string) list" where
  "rglob_ts root =
     (case root of
        None \<Rightarrow> []
      | Some entries \<Rightarrow> filter (\<lambda>(file_path, file). suffix ''.ts'' (name file_path)) entries)"

definition write_file :: "path \<Rightarrow> string \<Rightarrow> (path \<times> string) list \<Rightarrow> (path \<times> string) list" where
  "write_file file_path t entries =
     map (\<lambda>(p, c). if p = file_path then (p, t) else (p, c)) entries"

text \<open>The names that line 97 skips.\<close>

definition utility_files :: "string list" where
  "utility_files = [''index.ts'', ''getKieApiKey.ts'', ''getRunwareApiKey.ts'',
                    ''ModelFileGenerator.ts'']"

record run =
  updated_count :: nat
  skipped_count :: nat
  console :: "line list"
  fs :: "(path \<times> string) list"

text \<open>
  The body of the loop of \<^verbatim>\<open>main\<close> for one path that \<^verbatim>\<open>rglob\<close> yields, with what the
  file holds when the loop reaches it (no earlier step writes it: the paths of a tree are
  distinct). \<open>fs\<close> is the tree as the steps so far have left it.
\<close>

definition loop_body :: "string \<Rightarrow> path \<times> string \<Rightarrow> run \<Rightarrow> run" where
  "loop_body linesep entry st =
     (case entry of (file_path, file) \<Rightarrow>
        if name file_path \<in> set utility_files then st
        else
          (case process_model_file linesep file of (e, w, printed) \<Rightarrow>
             (let st1 = st\<lparr>console := console st @ printed,
                             fs := (case w of None \<Rightarrow> fs st | Some t \<Rightarrow> write_file file_path t (fs st))\<rparr>
              in if returned e
                 then st1\<lparr>console := console st1 @ [Updated_Line file_path],
                          updated_count := updated_count st1 + 1\<rparr>
                 else st1\<lparr>skipped_count := skipped_count st1 + 1\<rparr>)))"

text \<open>\<^verbatim>\<open>main\<close>: the loop over what \<^verbatim>\<open>rglob\<close> yields, then the summary.\<close>

definition main :: "string \<Rightarrow> (path \<times> string) list option \<Rightarrow> run" where
  "main linesep root =
     (let st = fold (loop_body linesep) (rglob_ts root)
                 \<lparr>updated_count = 0, skipped_count = 0, console = [],
                  fs = (case root of None \<Rightarrow> [] | Some entries \<Rightarrow> entries)\<rparr>
      in st\<lparr>console := console st @
                 [Summary_Header, Updated_Total (updated_count st), Skipped_Total (skipped_count st)]\<rparr>)"

text \<open>The root as a run leaves it: a missing root stays missing.\<close>

definition root_after :: "(path \<times> string) list option \<Rightarrow> run \<Rightarrow> (path \<times> string) list option" where
  "root_after root st = map_option (\<lambda>entries. fs st) root"

subsection \<open>Sample files\<close>

definition veo3_file :: string where
  \<open>veo3_file = ''  provider: "kie_ai",\<newline>  contentType: "prompt_to_video",\<newline>  recordId: "8aac94cb-5625-47f4-880c-4f0fd8bd83a1",\<newline>''\<close>

definition hyphen_file :: string where
  \<open>hyphen_file = ''provider: "kie-ai", contentType: "prompt_to_video", recordId: "8aac94cb-5625-47f4-880c-4f0fd8bd83a1",''\<close>

definition image_editing_file :: string where
  \<open>image_editing_file = ''  provider: "kie_ai",\<newline>  contentType: "image_editing",\<newline>''\<close>

definition unmapped_file :: string where
  \<open>unmapped_file = ''  provider: "runware",\<newline>  contentType: "prompt_to_audio",\<newline>''\<close>

definition no_provider_file :: string where
  \<open>no_provider_file = ''  contentType: "prompt_to_video",\<newline>  recordId: "8aac94cb-5625-47f4-880c-4f0fd8bd83a1",\<newline>''\<close>

definition commented_file :: string where
  \<open>commented_file = ''// use_api_key: pending\<newline>  provider: "kie_ai",\<newline>  contentType: "image_editing",\<newline>''\<close>

definition annotated_file :: string where
  \<open>annotated_file = ''  provider: "kie_ai",\<newline>  contentType: "image_editing",\<newline>  use_api_key: "KIE_AI_API_KEY_IMAGE_EDITING",\<newline>''\<close>

definition empty_run :: run where
  "empty_run = \<lparr>updated_count = 0, skipped_count = 0, console = [], fs = []\<rparr>"

definition four_space_file :: string where
  \<open>four_space_file = ''    provider: "kie_ai",\<newline>    contentType: "image_editing",\<newline>''\<close>

definition no_comma_file :: string where
  \<open>no_comma_file = ''{ provider: "kie_ai", contentType: "image_editing" }''\<close>

definition two_anchor_file :: string where
  \<open>two_anchor_file = ''{ provider: "kie_ai", contentType: "image_editing", }\<newline>{ contentType: "x", }''\<close>

definition no_comma_root :: "(path \<times> string) list option" where
  "no_comma_root = Some [([''kie_ai'', ''Flux.ts''], no_comma_file)]"

definition override_no_comma_file :: string where
  \<open>override_no_comma_file = ''{ recordId: "8aac94cb-5625-47f4-880c-4f0fd8bd83a1", provider: "kie_ai", contentType: "prompt_to_video" }''\<close>

definition mapping_no_comma_file :: string where
  \<open>mapping_no_comma_file = ''{ provider: "runware", contentType: "image_to_video" }''\<close>

definition crlf_file :: string where
  \<open>crlf_file = ''{ provider: "kie_ai",'' @ [CHR 0x0D, CHR 0x0A] @ ''  contentType: "image_editing", }'' @ [CHR 0x0D, CHR 0x0A]\<close>

definition quote_in_value_file :: string where
  \<open>quote_in_value_file = ''{ provider: "kie_ai's", contentType: "image_editing", }''\<close>

definition second_provider_file :: string where
  \<open>second_provider_file = ''{ provider: "kie-ai", contentType: "image_editing", } // provider: "kie_ai"''\<close>

text \<open>\<^verbatim>\<open>os.linesep\<close> on POSIX.\<close>

definition posix :: string where
  "posix = [CHR 0x0A]"

section \<open>Lemmas about the patterns, the substitutions and the text layer\<close>

lemma quote_not_space: "is_quote q \<Longrightarrow> \<not> is_space q"
  by (auto simp: is_quote_def is_space_def)

lemma field_at_SomeD:
  assumes "field_at nm cls s = Some (v, r)"
  shows "\<exists>ws q q'. s = nm @ ws @ q # v @ q' # r \<and> (\<forall>c\<in>set ws. is_space c) \<and> is_quote q
           \<and> is_quote q' \<and> v \<noteq> [] \<and> (\<forall>c\<in>set v. cls c)"
proof -
  from assms have p: "prefix nm s"
    by (auto simp: field_at_def split: if_splits)
  define t where "t = drop (length nm) s"
  from p have s: "s = nm @ t"
    by (auto simp: t_def prefix_def)
  from assms obtain q s2 where a: "dropWhile is_space t = q # s2" and q: "is_quote q"
    by (auto simp: field_at_def t_def split: if_splits list.splits)
  with assms obtain q' where b: "dropWhile cls s2 = q' # r" and q': "is_quote q'"
    and v: "v = takeWhile cls s2" "v \<noteq> []"
    by (auto simp: field_at_def t_def Let_def split: if_splits list.splits)
  have "t = takeWhile is_space t @ q # s2"
    using takeWhile_dropWhile_id [of is_space t] a by simp
  moreover have "s2 = v @ q' # r"
    using takeWhile_dropWhile_id [of cls s2] b v by simp
  moreover have "\<forall>c\<in>set (takeWhile is_space t). is_space c"
    by (auto dest: set_takeWhileD)
  moreover have "\<forall>c\<in>set v. cls c"
    unfolding v by (auto dest: set_takeWhileD)
  ultimately show ?thesis
    using s q q' v by blast
qed

lemma re_search_None: "re_search at s = None \<longleftrightarrow> (\<forall>t\<in>set (suffixes s). at t = None)"
  by (induction s) (auto split: option.splits)

lemma re_search_SomeD:
  "re_search at s = Some m \<Longrightarrow> \<exists>pre t. s = pre @ t \<and> at t = Some m"
proof (induction s)
  case Nil then show ?case by simp
next
  case (Cons c cs)
  show ?case
  proof (cases "at (c # cs)")
    case None
    with Cons obtain pre t where "cs = pre @ t" "at t = Some m" by auto
    then have "c # cs = (c # pre) @ t" by simp
    with \<open>at t = Some m\<close> show ?thesis by blast
  next
    case (Some a)
    with Cons.prems have "at ([] @ c # cs) = Some m" by simp
    then show ?thesis by (metis append_Nil)
  qed
qed

lemma replace_lit_split:
  assumes "c \<notin> set old" "old \<noteq> []"
  shows "replace_lit old new (x @ c # y) = replace_lit old new x @ c # replace_lit old new y"
proof (induction x rule: length_induct)
  case (1 x)
  show ?case
  proof (cases x)
    case Nil
    have "\<not> prefix old (c # y)"
      using assms by (cases old) auto
    then show ?thesis using Nil by simp
  next
    case (Cons a x')
    show ?thesis
    proof (cases "prefix old (x @ c # y)")
      case True
      then obtain z where z: "x @ c # y = old @ z" by (auto simp: prefix_def)
      have "length old \<le> length x"
      proof (rule ccontr)
        assume "\<not> length old \<le> length x"
        then have "old ! length x = (x @ c # y) ! length x"
          using z by (simp add: nth_append)
        then have "c \<in> set old" using \<open>\<not> length old \<le> length x\<close>
          by (metis nth_append_length not_le_imp_less nth_mem)
        with assms show False by simp
      qed
      with True have px: "prefix old x"
        by (metis prefix_length_prefix prefixI z)
      have d: "drop (length old - 1) (x' @ c # y) = drop (length old - 1) x' @ c # y"
        using \<open>length old \<le> length x\<close> Cons by simp
      have "length (drop (length old - 1) x') < length x"
        using Cons by simp
      with 1 have "replace_lit old new (drop (length old - 1) x' @ c # y)
          = replace_lit old new (drop (length old - 1) x') @ c # replace_lit old new y"
        by blast
      then show ?thesis
        using True px Cons d by simp
    next
      case False
      then have "\<not> prefix old x"
        by (meson prefix_order.dual_order.trans prefixI)
      moreover have "replace_lit old new (x' @ c # y) = replace_lit old new x' @ c # replace_lit old new y"
        using 1 Cons by simp
      ultimately show ?thesis
        using False Cons by simp
    qed
  qed
qed

lemma decl_at_SomeD:
  assumes "decl_at s = Some (m, rest)"
  shows "s = m @ rest \<and> (\<exists>ws q v q'. m = ''contentType:'' @ ws @ q # v @ [q', CHR '',''] \<and>
           (\<forall>c\<in>set ws. is_space c) \<and> is_quote q \<and> is_quote q' \<and> v \<noteq> [] \<and> (\<forall>c\<in>set v. not_quote c))"
proof -
  from assms obtain v where f: "field_at ''contentType:'' not_quote s = Some (v, CHR '','' # rest)"
    and m: "m = take (length s - length rest) s"
    unfolding decl_at_def by (auto split: option.splits list.splits if_splits)
  from field_at_SomeD [OF f] obtain ws q q' where
    s: "s = ''contentType:'' @ ws @ q # v @ q' # CHR '','' # rest"
    and rest: "\<forall>c\<in>set ws. is_space c" "is_quote q" "is_quote q'" "v \<noteq> []" "\<forall>c\<in>set v. not_quote c"
    by blast
  have "s = (''contentType:'' @ ws @ q # v @ [q', CHR '','']) @ rest"
    using s by simp
  then have "m = ''contentType:'' @ ws @ q # v @ [q', CHR '','']"
    unfolding m by (metis append_eq_conv_conj length_append add_diff_cancel_right')
  with \<open>s = _ @ rest\<close> rest show ?thesis
    by blast
qed

lemma decl_at_Nil: "decl_at [] = None"
  by (simp add: decl_at_def field_at_def)

lemma re_sub_decl_first:
  assumes "re_search decl_at s = Some (m, rest)"
  shows "\<exists>pre. s = pre @ m @ rest \<and> re_sub_decl k s = pre @ m @ annotation k @ re_sub_decl k rest"
  using assms
proof (induction s)
  case Nil
  then show ?case by (simp add: decl_at_Nil)
next
  case (Cons c cs)
  show ?case
  proof (cases "decl_at (c # cs)")
    case None
    with Cons obtain pre where "cs = pre @ m @ rest"
      "re_sub_decl k cs = pre @ m @ annotation k @ re_sub_decl k rest"
      by auto
    with None have "c # cs = (c # pre) @ m @ rest \<and>
        re_sub_decl k (c # cs) = (c # pre) @ m @ annotation k @ re_sub_decl k rest"
      by simp
    then show ?thesis by blast
  next
    case (Some a)
    with Cons.prems have d: "decl_at (c # cs) = Some (m, rest)" by simp
    from decl_at_SomeD [OF d] have "c # cs = [] @ m @ rest" by simp
    moreover have "re_sub_decl k (c # cs) = [] @ m @ annotation k @ re_sub_decl k rest"
      using d by simp
    ultimately show ?thesis by blast
  qed
qed

lemma re_sub_decl_none:
  "re_search decl_at s = None \<Longrightarrow> re_sub_decl k s = s"
  by (induction s) (auto split: option.splits)

lemma re_sub_ref_annotation:
  "re_sub_ref (x @ CHR '','' # annotation k @ z)
     = re_sub_ref x @ CHR '','' # annotation (re_sub_ref k) @ re_sub_ref z"
proof -
  define old where "old = ''MODEL_CONFIG.contentType)''"
  define new where "new = ''MODEL_CONFIG.use_api_key)''"
  define A where "A = ''  use_api_key: ''"
  have ne: "old \<noteq> []" and c1: "CHR '','' \<notin> set old" and c2: "CHR 0x0A \<notin> set old"
    and c3: "CHR 0x22 \<notin> set old"
    by (simp_all add: old_def)
  have A: "replace_lit old new A = A"
    by (simp add: old_def A_def)
  have an: "annotation j = CHR 0x0A # A @ CHR 0x22 # j @ CHR 0x22 # CHR '','' # []" for j
    by (simp add: annotation_def A_def)
  have "replace_lit old new (x @ CHR '','' # annotation k @ z)
      = replace_lit old new x @ CHR '','' # replace_lit old new (annotation k @ z)"
    by (rule replace_lit_split [OF c1 ne])
  also have "replace_lit old new (annotation k @ z)
      = replace_lit old new ([] @ CHR 0x0A # (A @ CHR 0x22 # k @ CHR 0x22 # CHR '','' # z))"
    by (simp add: an)
  also have "\<dots> = CHR 0x0A # replace_lit old new (A @ CHR 0x22 # (k @ CHR 0x22 # CHR '','' # z))"
    by (subst replace_lit_split [OF c2 ne]) simp
  also have "replace_lit old new (A @ CHR 0x22 # (k @ CHR 0x22 # CHR '','' # z))
      = A @ CHR 0x22 # replace_lit old new (k @ CHR 0x22 # ([] @ CHR '','' # z))"
    by (subst replace_lit_split [OF c3 ne]) (simp add: A)
  also have "replace_lit old new (k @ CHR 0x22 # ([] @ CHR '','' # z))
      = replace_lit old new k @ CHR 0x22 # replace_lit old new ([] @ CHR '','' # z)"
    by (rule replace_lit_split [OF c3 ne])
  also have "replace_lit old new ([] @ CHR '','' # z) = CHR '','' # replace_lit old new z"
    by (subst replace_lit_split [OF c1 ne]) simp
  finally show ?thesis
    by (simp add: re_sub_ref_def an old_def [symmetric] new_def [symmetric])
qed

lemma SPECIAL_MODELS_values:
  "SPECIAL_MODELS r = Some k \<Longrightarrow>
     k \<in> {''KIE_AI_API_KEY_VEO3'', ''KIE_AI_API_KEY_SORA2'', ''KIE_AI_API_KEY_NANO_BANANA'',
          ''KIE_AI_API_KEY_SEEDREAM_V4''}"
  unfolding SPECIAL_MODELS_def by (simp split: if_splits)

lemma API_KEY_MAPPING_values:
  "API_KEY_MAPPING pc = Some k \<Longrightarrow>
     k \<in> {''KIE_AI_API_KEY_IMAGE_EDITING'', ''KIE_AI_API_KEY_IMAGE_TO_VIDEO'',
          ''KIE_AI_API_KEY_PROMPT_TO_IMAGE'', ''KIE_AI_API_KEY_PROMPT_TO_VIDEO'',
          ''KIE_AI_API_KEY_PROMPT_TO_AUDIO'', ''RUNWARE_API_KEY_PROMPT_TO_IMAGE'',
          ''RUNWARE_API_KEY_IMAGE_EDITING'', ''RUNWARE_API_KEY_IMAGE_TO_VIDEO''}"
  unfolding API_KEY_MAPPING_def by (simp split: if_splits)

lemma re_sub_ref_SPECIAL: "SPECIAL_MODELS r = Some k \<Longrightarrow> re_sub_ref k = k"
  by (drule SPECIAL_MODELS_values) (auto simp: re_sub_ref_def)

lemma re_sub_ref_MAPPING: "API_KEY_MAPPING pc = Some k \<Longrightarrow> re_sub_ref k = k"
  by (drule API_KEY_MAPPING_values) (auto simp: re_sub_ref_def)

lemma written_text:
  assumes "re_search decl_at content = Some (m, rest)" and "re_sub_ref k = k"
  shows "\<exists>pre. content = pre @ m @ rest \<and>
           re_sub_ref (re_sub_decl k content)
             = re_sub_ref (pre @ m) @ annotation k @ re_sub_ref (re_sub_decl k rest)"
proof -
  from re_sub_decl_first [OF assms(1)] obtain pre where
    c: "content = pre @ m @ rest" and
    r: "re_sub_decl k content = pre @ m @ annotation k @ re_sub_decl k rest"
    by blast
  from re_search_SomeD [OF assms(1)] obtain t where "decl_at t = Some (m, rest)"
    by blast
  from decl_at_SomeD [OF this] obtain m' where m: "m = m' @ [CHR '','']"
    by auto
  have "re_sub_ref (re_sub_decl k content)
      = re_sub_ref ((pre @ m') @ CHR '','' # annotation k @ re_sub_decl k rest)"
    by (simp add: r m)
  also have "\<dots> = re_sub_ref (pre @ m') @ CHR '','' # annotation k @ re_sub_ref (re_sub_decl k rest)"
    by (simp only: re_sub_ref_annotation assms(2))
  also have "re_sub_ref (pre @ m) = re_sub_ref (pre @ m') @ [CHR '',''] "
    using replace_lit_split [of "CHR '',''" "''MODEL_CONFIG.contentType)''" _ "pre @ m'" "[]"]
    by (simp add: re_sub_ref_def m)
  then have "re_sub_ref (pre @ m') @ CHR '','' # annotation k @ re_sub_ref (re_sub_decl k rest)
      = re_sub_ref (pre @ m) @ annotation k @ re_sub_ref (re_sub_decl k rest)"
    by simp
  finally show ?thesis
    using c by blast
qed

lemma provider_pattern_rejects:
  assumes "\<forall>c\<in>set ws. is_space c" "is_quote q" "\<forall>c\<in>set v. \<not> is_quote c" "\<exists>c\<in>set v. \<not> is_word c"
  shows "field_at nm is_word (nm @ ws @ q # v @ rest) = None"
proof -
  have a: "dropWhile is_space (ws @ q # v @ rest) = q # v @ rest"
    using assms(1,2) by (simp add: dropWhile_append3 quote_not_space)
  from assms(4) obtain c where c: "c \<in> set v" "\<not> is_word c"
    by blast
  then have t: "takeWhile is_word (v @ rest) = takeWhile is_word v"
    and d: "dropWhile is_word (v @ rest) = dropWhile is_word v @ rest"
    by (simp_all add: takeWhile_append1 dropWhile_append1)
  from c have ne: "dropWhile is_word v \<noteq> []"
    by (auto simp: dropWhile_eq_Nil_conv)
  then obtain b v' where b: "dropWhile is_word v = b # v'"
    by (cases "dropWhile is_word v") auto
  then have "b \<in> set v"
    by (metis list.set_intros(1) set_dropWhileD)
  with assms(3) have "\<not> is_quote b"
    by blast
  then show ?thesis
    by (simp add: field_at_def a t d b Let_def)
qed

lemma provider_match_word:
  assumes "provider_match s = Some p"
  shows "p \<noteq> [] \<and> (\<forall>c\<in>set p. is_word c)"
proof -
  from assms obtain r where "re_search (field_at ''provider:'' is_word) s = Some (p, r)"
    by (auto simp: provider_match_def)
  from re_search_SomeD [OF this] obtain t where "field_at ''provider:'' is_word t = Some (p, r)"
    by blast
  from field_at_SomeD [OF this] show ?thesis
    by blast
qed

lemma replace_lit_absent:
  "\<not> sublist old s \<Longrightarrow> replace_lit old new s = s"
proof (induction s)
  case Nil
  show ?case by (simp only: replace_lit.simps)
next
  case (Cons c cs)
  have np: "\<not> prefix old (c # cs)"
    using Cons.prems by (rule contrapos_nn) (rule prefix_imp_sublist)
  have "\<not> sublist old cs"
    using Cons.prems by (rule contrapos_nn) (rule sublist_Cons_right [THEN iffD2, OF disjI2])
  then have "replace_lit old new cs = cs"
    by (rule Cons.IH)
  then show ?case
    by (simp only: replace_lit.simps np if_False)
qed

lemma re_sub_ref_table_value:
  "k \<in> ran SPECIAL_MODELS \<or> k \<in> ran API_KEY_MAPPING \<Longrightarrow> re_sub_ref k = k"
  by (auto simp: ran_def dest: re_sub_ref_SPECIAL re_sub_ref_MAPPING)

lemma re_sub_ref_comma:
  "re_sub_ref (x @ CHR '','' # z) = re_sub_ref x @ CHR '','' # re_sub_ref z"
  unfolding re_sub_ref_def by (rule replace_lit_split) simp_all

lemma sublist_parts:
  "\<not> sublist old (a @ b) \<Longrightarrow> \<not> sublist old a \<and> \<not> sublist old b"
  by (auto simp: sublist_append)

lemma re_sub_ref_absent:
  "\<not> sublist ''MODEL_CONFIG.contentType)'' s \<Longrightarrow> re_sub_ref s = s"
  unfolding re_sub_ref_def by (rule replace_lit_absent)

lemma annotation_holds_field_name: "sublist ''use_api_key:'' (annotation k)"
proof -
  have "annotation k
      = (CHR 0x0A # ''  '') @ ''use_api_key:'' @ (CHR 0x20 # CHR 0x22 # k @ [CHR 0x22, CHR '',''])"
    by (simp add: annotation_def)
  then show ?thesis
    by (simp only: sublist_appendI)
qed

text \<open>
  Reading changes line endings only, so a word without line ending characters occurs in the
  text read exactly where it occurs in the file.
\<close>

lemma read_text_prefix:
  assumes "CHR 0x0D \<notin> set kw" "CHR 0x0A \<notin> set kw"
  shows "prefix kw (read_text s) \<longleftrightarrow> prefix kw s"
  using assms
proof (induction s arbitrary: kw rule: read_text.induct)
  case 1
  then show ?case by simp
next
  case (2 c)
  then show ?case by (cases kw) auto
next
  case (3 c d ds)
  show ?case
  proof (cases kw)
    case Nil
    then show ?thesis by simp
  next
    case (Cons a kw')
    with 3 have a: "a \<noteq> CHR 0x0D" "a \<noteq> CHR 0x0A" "CHR 0x0D \<notin> set kw'" "CHR 0x0A \<notin> set kw'"
      by auto
    show ?thesis
    proof (cases "c = CHR 0x0D")
      case True
      with Cons a show ?thesis by simp
    next
      case False
      with "3.IH"(3) [OF False a(3,4)] Cons show ?thesis by simp
    qed
  qed
qed

lemma read_text_sublist:
  assumes "CHR 0x0D \<notin> set kw" "CHR 0x0A \<notin> set kw" "kw \<noteq> []"
  shows "sublist kw (read_text s) \<longleftrightarrow> sublist kw s"
proof (induction s rule: read_text.induct)
  case 1
  show ?case by simp
next
  case (2 c)
  from assms obtain a kw' where kw: "kw = a # kw'" "a \<noteq> CHR 0x0D" "a \<noteq> CHR 0x0A"
    by (cases kw) auto
  then show ?case
    by (simp add: sublist_Cons_right)
next
  case (3 c d ds)
  from assms obtain a kw' where kw: "kw = a # kw'" "a \<noteq> CHR 0x0D" "a \<noteq> CHR 0x0A"
    by (cases kw) auto
  have np: "\<not> prefix kw (CHR 0x0D # t)" "\<not> prefix kw (CHR 0x0A # t)" for t
    using kw by simp_all
  show ?case
  proof (cases "c = CHR 0x0D")
    case cr: True
    show ?thesis
    proof (cases "d = CHR 0x0A")
      case True
      with cr 3(1) np show ?thesis
        by (simp add: sublist_Cons_right)
    next
      case False
      with cr 3(2) np show ?thesis
        by (simp add: sublist_Cons_right [of kw "CHR 0x0D"] sublist_Cons_right [of kw "CHR 0x0A"])
    qed
  next
    case False
    have "prefix kw (c # read_text (d # ds)) \<longleftrightarrow> prefix kw (c # d # ds)"
      using read_text_prefix [OF assms(1,2), of "c # d # ds"] False by simp
    with False 3(3) show ?thesis
      by (simp add: sublist_Cons_right [of kw c])
  qed
qed

lemma write_text_append:
  "write_text linesep (a @ b) = write_text linesep a @ write_text linesep b"
  by (induction a) simp_all

lemma write_text_plain: "CHR 0x0A \<notin> set s \<Longrightarrow> write_text linesep s = s"
  by (induction s) auto

lemma write_text_posix: "write_text [CHR 0x0A] s = s"
  by (induction s) auto

lemma field_name_in_file:
  "sublist ''use_api_key:'' (read_text file) \<longleftrightarrow> sublist ''use_api_key:'' file"
  by (rule read_text_sublist) simp_all

text \<open>The returns of \<^verbatim>\<open>process_model_file\<close>, one lemma each, and all four together.\<close>

lemma process_Already:
  "sublist ''use_api_key:'' (read_text file) \<Longrightarrow>
   process_model_file linesep file = (Already_Present, None, [])"
  by (simp add: process_model_file_def Let_def)

lemma process_Missing:
  "\<not> sublist ''use_api_key:'' (read_text file) \<Longrightarrow>
   provider_match (read_text file) = None \<or> content_type_match (read_text file) = None \<Longrightarrow>
   process_model_file linesep file = (Missing_Field, None, [])"
  by (auto simp: process_model_file_def Let_def split: option.splits)

lemma process_No_Mapping:
  assumes "\<not> sublist ''use_api_key:'' (read_text file)"
    and "provider_match (read_text file) = Some provider"
    and "content_type_match (read_text file) = Some content_type"
    and "case record_id_match (read_text file) of None \<Rightarrow> True | Some r \<Rightarrow> SPECIAL_MODELS r = None"
    and "API_KEY_MAPPING (provider, content_type) = None"
  shows "process_model_file linesep file
           = (No_Mapping_Found, None, [No_Mapping provider content_type])"
  using assms unfolding process_model_file_def
  by (auto simp: Let_def dom_def split: option.splits)

lemma process_Special:
  assumes "\<not> sublist ''use_api_key:'' (read_text file)"
    and "provider_match (read_text file) = Some provider"
    and "content_type_match (read_text file) = Some content_type"
    and "record_id_match (read_text file) = Some record_id"
    and "SPECIAL_MODELS record_id = Some k"
  shows "process_model_file linesep file
           = (Written, Some (write_text linesep (re_sub_ref (re_sub_decl k (read_text file)))), [])"
proof -
  have "record_id \<noteq> []"
    using assms(5) by (auto simp: SPECIAL_MODELS_def)
  then show ?thesis
    using assms unfolding process_model_file_def by (simp add: Let_def dom_def)
qed

lemma process_Mapping:
  assumes "\<not> sublist ''use_api_key:'' (read_text file)"
    and "provider_match (read_text file) = Some provider"
    and "content_type_match (read_text file) = Some content_type"
    and "case record_id_match (read_text file) of None \<Rightarrow> True | Some r \<Rightarrow> SPECIAL_MODELS r = None"
    and "API_KEY_MAPPING (provider, content_type) = Some k"
  shows "process_model_file linesep file
           = (Written, Some (write_text linesep (re_sub_ref (re_sub_decl k (read_text file)))), [])"
  using assms unfolding process_model_file_def
  by (auto simp: Let_def dom_def split: option.splits)

lemma process_cases:
  "process_model_file linesep file = (Already_Present, None, [])
     \<and> sublist ''use_api_key:'' (read_text file)
   \<or> process_model_file linesep file = (Missing_Field, None, [])
     \<and> \<not> sublist ''use_api_key:'' (read_text file)
     \<and> (provider_match (read_text file) = None \<or> content_type_match (read_text file) = None)
   \<or> (\<exists>p c. process_model_file linesep file = (No_Mapping_Found, None, [No_Mapping p c])
        \<and> \<not> sublist ''use_api_key:'' (read_text file)
        \<and> provider_match (read_text file) = Some p \<and> content_type_match (read_text file) = Some c)
   \<or> (\<exists>p c k. process_model_file linesep file
          = (Written, Some (write_text linesep (re_sub_ref (re_sub_decl k (read_text file)))), [])
        \<and> \<not> sublist ''use_api_key:'' (read_text file)
        \<and> provider_match (read_text file) = Some p \<and> content_type_match (read_text file) = Some c
        \<and> ((\<exists>r. record_id_match (read_text file) = Some r \<and> SPECIAL_MODELS r = Some k)
           \<or> (case record_id_match (read_text file) of None \<Rightarrow> True
               | Some r \<Rightarrow> SPECIAL_MODELS r = None)
             \<and> API_KEY_MAPPING (p, c) = Some k))"
proof (cases "sublist ''use_api_key:'' (read_text file)")
  case True
  then show ?thesis by (simp add: process_Already)
next
  case ns: False
  show ?thesis
  proof (cases "provider_match (read_text file) = None \<or> content_type_match (read_text file) = None")
    case True
    with ns show ?thesis by (simp add: process_Missing)
  next
    case False
    then obtain p c where pc: "provider_match (read_text file) = Some p"
      "content_type_match (read_text file) = Some c"
      by auto
    show ?thesis
    proof (cases "\<exists>r k. record_id_match (read_text file) = Some r \<and> SPECIAL_MODELS r = Some k")
      case True
      then obtain r k where r: "record_id_match (read_text file) = Some r" "SPECIAL_MODELS r = Some k"
        by blast
      from process_Special [OF ns pc r] ns pc r show ?thesis
        by blast
    next
      case False
      then have no: "case record_id_match (read_text file) of None \<Rightarrow> True
          | Some r \<Rightarrow> SPECIAL_MODELS r = None"
        by (auto split: option.splits)
      show ?thesis
      proof (cases "API_KEY_MAPPING (p, c)")
        case None
        from process_No_Mapping [OF ns pc no None] ns pc show ?thesis
          by blast
      next
        case (Some k)
        from process_Mapping [OF ns pc no Some] ns pc no Some show ?thesis
          by blast
      qed
    qed
  qed
qed

lemma loop_body_skip:
  assumes "name file_path \<notin> set utility_files"
    and "process_model_file linesep file = (e, None, printed)" and "\<not> returned e"
  shows "loop_body linesep (file_path, file) st
           = st\<lparr>skipped_count := skipped_count st + 1, console := console st @ printed\<rparr>"
  using assms by (simp add: loop_body_def Let_def)

lemma loop_body_written:
  assumes "name file_path \<notin> set utility_files"
    and "process_model_file linesep file = (Written, Some file', printed)"
  shows "loop_body linesep (file_path, file) st
           = st\<lparr>updated_count := updated_count st + 1,
                console := console st @ printed @ [Updated_Line file_path],
                fs := map (\<lambda>(p, c). if p = file_path then (p, file') else (p, c)) (fs st)\<rparr>"
  using assms by (simp add: loop_body_def Let_def write_file_def)

text \<open>
  Where the text has an anchor, the file written holds \<^verbatim>\<open>use_api_key:\<close>, so a later run
  leaves at line 47.
\<close>

lemma annotated_text_is_skipped:
  assumes "re_search decl_at (read_text file) = Some (m, rest)"
    and "k \<in> ran SPECIAL_MODELS \<or> k \<in> ran API_KEY_MAPPING"
  shows "process_model_file linesep (write_text linesep (re_sub_ref (re_sub_decl k (read_text file))))
           = (Already_Present, None, [])"
proof -
  from written_text [OF assms(1) re_sub_ref_table_value [OF assms(2)]] obtain pre where
    w: "re_sub_ref (re_sub_decl k (read_text file))
       = re_sub_ref (pre @ m) @ annotation k @ re_sub_ref (re_sub_decl k rest)"
    by blast
  obtain a b where ab: "annotation k = a @ ''use_api_key:'' @ b"
    using annotation_holds_field_name [of k] unfolding sublist_def by blast
  have kw: "write_text linesep ''use_api_key:'' = ''use_api_key:''"
    by (rule write_text_plain) simp
  have "write_text linesep (re_sub_ref (re_sub_decl k (read_text file)))
      = (write_text linesep (re_sub_ref (pre @ m)) @ write_text linesep a) @ ''use_api_key:''
        @ (write_text linesep b @ write_text linesep (re_sub_ref (re_sub_decl k rest)))"
    unfolding w ab by (simp only: write_text_append kw append_assoc)
  then have "sublist ''use_api_key:'' (write_text linesep (re_sub_ref (re_sub_decl k (read_text file))))"
    by (simp only: sublist_appendI)
  then show ?thesis
    by (simp only: process_Already field_name_in_file)
qed

section \<open>The claims\<close>

subsection \<open>C1: identity override\<close>

text \<open>
  C1 at a file whose record id is a key of \<open>SPECIAL_MODELS\<close> and whose contentType value is
  not followed by a comma: all three fields are extracted and the override value is
  \<^verbatim>\<open>KIE_AI_API_KEY_VEO3\<close>, the run counts the file as updated, and the file holds afterwards
  what it held before, without that value.
\<close>

theorem override_value_not_written:
  "main linesep (Some [([''kie_ai'', ''Veo3.ts''], override_no_comma_file)]) =
     \<lparr>updated_count = 1, skipped_count = 0,
      console = [Updated_Line [''kie_ai'', ''Veo3.ts''], Summary_Header, Updated_Total 1,
                 Skipped_Total 0],
      fs = [([''kie_ai'', ''Veo3.ts''], override_no_comma_file)]\<rparr>
   \<and> provider_match (read_text override_no_comma_file) = Some ''kie_ai''
   \<and> content_type_match (read_text override_no_comma_file) = Some ''prompt_to_video''
   \<and> record_id_match (read_text override_no_comma_file)
       = Some ''8aac94cb-5625-47f4-880c-4f0fd8bd83a1''
   \<and> SPECIAL_MODELS ''8aac94cb-5625-47f4-880c-4f0fd8bd83a1'' = Some ''KIE_AI_API_KEY_VEO3''
   \<and> \<not> sublist ''KIE_AI_API_KEY_VEO3'' override_no_comma_file"
  by code_simp

subsection \<open>C2: running twice\<close>

text \<open>
  C2 at a tree of one file whose contentType value is not followed by a comma: the
  first run counts the file as updated and leaves in it what it held, so the second run over
  the tree that the first one left counts it as updated again.
\<close>

theorem second_run_updates_again:
  "main linesep no_comma_root =
     \<lparr>updated_count = 1, skipped_count = 0,
      console = [Updated_Line [''kie_ai'', ''Flux.ts''], Summary_Header, Updated_Total 1,
                 Skipped_Total 0],
      fs = [([''kie_ai'', ''Flux.ts''], no_comma_file)]\<rparr>
   \<and> root_after no_comma_root (main linesep no_comma_root) = no_comma_root
   \<and> updated_count (main linesep (root_after no_comma_root (main linesep no_comma_root))) = 1"
  by code_simp

subsection \<open>C3: what a write changes\<close>

text \<open>
  C3, as stated, fails, on a platform whose \<^verbatim>\<open>os.linesep\<close> is a line feed: after an anchor
  line indented by four spaces the new line is indented by two; a file whose contentType
  value is not followed by a comma is written back with no new line at all; a file with two
  anchors gets two new lines; and in a file whose lines end in a carriage return and a line
  feed every line ending is rewritten.
\<close>

theorem annotation_indentation_is_fixed:
  \<open>process_model_file posix four_space_file =
     (Written,
      Some ''    provider: "kie_ai",\<newline>    contentType: "image_editing",\<newline>  use_api_key: "KIE_AI_API_KEY_IMAGE_EDITING",\<newline>'',
      [])
   \<and> process_model_file posix no_comma_file = (Written, Some no_comma_file, [])
   \<and> process_model_file posix two_anchor_file =
     (Written,
      Some ''{ provider: "kie_ai", contentType: "image_editing",\<newline>  use_api_key: "KIE_AI_API_KEY_IMAGE_EDITING", }\<newline>{ contentType: "x",\<newline>  use_api_key: "KIE_AI_API_KEY_IMAGE_EDITING", }'',
      [])
   \<and> process_model_file posix crlf_file =
     (Written,
      Some ''{ provider: "kie_ai",\<newline>  contentType: "image_editing",\<newline>  use_api_key: "KIE_AI_API_KEY_IMAGE_EDITING", }\<newline>'',
      [])\<close>
  by code_simp

text \<open>
  C3, amended. Let a file be written and let its text, as read with every line ending
  taken as a line feed, have exactly one anchor (a contentType declaration ending in a
  comma). Then the text written is the text read with every \<^verbatim>\<open>MODEL_CONFIG.contentType)\<close>
  rewritten and with one piece of text put in right after the comma of the anchor: a line
  feed, two spaces whatever the indentation of the anchor line, and \<^verbatim>\<open>use_api_key: "..",\<close>
  with the resolved value (the one of \<open>SPECIAL_MODELS\<close> for the record id, else the one of
  \<open>API_KEY_MAPPING\<close> for the pair). The file holds that text afterwards, each line feed written
  as \<^verbatim>\<open>os.linesep\<close>, and the other files of the tree are as before. Where the line endings of
  the file are \<^verbatim>\<open>os.linesep\<close> already and the text has no \<^verbatim>\<open>MODEL_CONFIG.contentType)\<close>, the
  file after is the file before with that one insertion and no other change.
\<close>

theorem one_anchor_one_annotation:
  assumes "process_model_file linesep file = (Written, Some file', printed)"
    and "re_search decl_at (read_text file) = Some (m, post)"
    and "re_search decl_at post = None"
    and "name file_path \<notin> set utility_files"
  shows "\<exists>pre k p c.
      read_text file = pre @ m @ post
    \<and> (\<exists>ws q v q'. m = ''contentType:'' @ ws @ q # v @ [q', CHR '',''])
    \<and> provider_match (read_text file) = Some p \<and> content_type_match (read_text file) = Some c
    \<and> ((\<exists>r. record_id_match (read_text file) = Some r \<and> SPECIAL_MODELS r = Some k)
       \<or> (case record_id_match (read_text file) of None \<Rightarrow> True
           | Some r \<Rightarrow> SPECIAL_MODELS r = None)
         \<and> API_KEY_MAPPING (p, c) = Some k)
    \<and> re_sub_ref (read_text file) = re_sub_ref (pre @ m) @ re_sub_ref post
    \<and> file' = write_text linesep (re_sub_ref (pre @ m) @ annotation k @ re_sub_ref post)
    \<and> fs (loop_body linesep (file_path, file) st)
        = map (\<lambda>(f, t). if f = file_path then (f, file') else (f, t)) (fs st)
    \<and> (write_text linesep (read_text file) = file
        \<and> \<not> sublist ''MODEL_CONFIG.contentType)'' (read_text file) \<longrightarrow>
          file = write_text linesep (pre @ m) @ write_text linesep post
        \<and> file' = write_text linesep (pre @ m) @ write_text linesep (annotation k)
                  @ write_text linesep post)"
proof -
  from process_cases [of linesep "file"] assms(1) obtain p c k where
    n: "file' = write_text linesep (re_sub_ref (re_sub_decl k (read_text file)))"
    and pc: "provider_match (read_text file) = Some p" "content_type_match (read_text file) = Some c"
    and res: "(\<exists>r. record_id_match (read_text file) = Some r \<and> SPECIAL_MODELS r = Some k)
       \<or> (case record_id_match (read_text file) of None \<Rightarrow> True
           | Some r \<Rightarrow> SPECIAL_MODELS r = None)
         \<and> API_KEY_MAPPING (p, c) = Some k"
    by auto
  from res have k: "k \<in> ran SPECIAL_MODELS \<or> k \<in> ran API_KEY_MAPPING"
    unfolding ran_def by blast
  from written_text [OF assms(2) re_sub_ref_table_value [OF k]] obtain pre where
    c: "read_text file = pre @ m @ post"
    and w: "re_sub_ref (re_sub_decl k (read_text file))
              = re_sub_ref (pre @ m) @ annotation k @ re_sub_ref (re_sub_decl k post)"
    by blast
  from re_search_SomeD [OF assms(2)] obtain t where "decl_at t = Some (m, post)"
    by blast
  from decl_at_SomeD [OF this] obtain ws q v q' where
    m: "m = ''contentType:'' @ ws @ q # v @ [q', CHR '','']"
    by blast
  then have shape: "\<exists>ws q v q'. m = ''contentType:'' @ ws @ q # v @ [q', CHR '','']"
    by blast
  define m' where "m' = ''contentType:'' @ ws @ q # v @ [q']"
  have mm: "m = m' @ [CHR '','']"
    unfolding m m'_def by simp
  have "re_sub_ref (read_text file) = re_sub_ref ((pre @ m') @ CHR '','' # post)"
    unfolding c mm by simp
  also have "\<dots> = re_sub_ref (pre @ m') @ CHR '','' # re_sub_ref post"
    by (rule re_sub_ref_comma)
  also have "re_sub_ref (pre @ m') @ [CHR '',''] = re_sub_ref (pre @ m)"
    using re_sub_ref_comma [of "pre @ m'" "[]"] unfolding mm by (simp add: re_sub_ref_def)
  then have "re_sub_ref (pre @ m') @ CHR '','' # re_sub_ref post
      = re_sub_ref (pre @ m) @ re_sub_ref post"
    by (metis append.assoc append_Cons append_Nil)
  finally have r: "re_sub_ref (read_text file) = re_sub_ref (pre @ m) @ re_sub_ref post" .
  have nc: "file' = write_text linesep (re_sub_ref (pre @ m) @ annotation k @ re_sub_ref post)"
    unfolding n w by (simp only: re_sub_decl_none [OF assms(3)])
  have tree: "fs (loop_body linesep (file_path, file) st)
      = map (\<lambda>(f, t). if f = file_path then (f, file') else (f, t)) (fs st)"
    by (simp add: loop_body_written [OF assms(4,1)])
  have plain: "file = write_text linesep (pre @ m) @ write_text linesep post
      \<and> file' = write_text linesep (pre @ m) @ write_text linesep (annotation k)
                @ write_text linesep post"
    if a: "write_text linesep (read_text file) = file
      \<and> \<not> sublist ''MODEL_CONFIG.contentType)'' (read_text file)"
  proof -
    from a have "\<not> sublist ''MODEL_CONFIG.contentType)'' ((pre @ m) @ post)"
      unfolding c by (simp only: append_assoc simp_thms)
    from sublist_parts [OF this] have e: "re_sub_ref (pre @ m) = pre @ m" "re_sub_ref post = post"
      by (blast intro: re_sub_ref_absent)+
    from a have "file = write_text linesep ((pre @ m) @ post)"
      unfolding c by (simp only: append_assoc)
    then have "file = write_text linesep (pre @ m) @ write_text linesep post"
      by (simp only: write_text_append)
    moreover have "file' = write_text linesep (pre @ m) @ write_text linesep (annotation k)
                @ write_text linesep post"
      unfolding nc e by (simp only: write_text_append)
    ultimately show ?thesis
      by (rule conjI)
  qed
  show ?thesis
    apply (rule exI [of _ pre])
    apply (rule exI [of _ k])
    apply (rule exI [of _ p])
    apply (rule exI [of _ c])
    apply (intro conjI)
            apply (rule c)
           apply (rule shape)
          apply (rule pc(1))
         apply (rule pc(2))
        apply (rule res)
       apply (rule r)
      apply (rule nc)
     apply (rule tree)
    apply (rule impI)
    apply (erule plain)
    done
qed

theorem one_anchor_one_annotation_witness:
  \<open>\<exists>pre. image_editing_file = pre @ ''contentType: "image_editing",'' @ [CHR 0x0A]
     \<and> fs (loop_body posix ([''kie_ai'', ''Flux.ts''], image_editing_file)
             \<lparr>updated_count = 0, skipped_count = 0, console = [],
              fs = [([''kie_ai'', ''Flux.ts''], image_editing_file)]\<rparr>)
        = [([''kie_ai'', ''Flux.ts''],
            pre @ ''contentType: "image_editing",''
              @ annotation ''KIE_AI_API_KEY_IMAGE_EDITING'' @ [CHR 0x0A])]\<close>
proof -
  have h1: \<open>process_model_file posix image_editing_file =
     (Written,
      Some ''  provider: "kie_ai",\<newline>  contentType: "image_editing",\<newline>  use_api_key: "KIE_AI_API_KEY_IMAGE_EDITING",\<newline>'',
      [])\<close>
    by code_simp
  have h2: \<open>re_search decl_at (read_text image_editing_file)
      = Some (''contentType: "image_editing",'', [CHR 0x0A])\<close>
    by code_simp
  have h3: "re_search decl_at [CHR 0x0A] = None"
    by code_simp
  have h4: "name [''kie_ai'', ''Flux.ts''] \<notin> set utility_files"
    by code_simp
  have h5: "write_text posix (read_text image_editing_file) = image_editing_file"
    by code_simp
  have h6: "\<not> sublist ''MODEL_CONFIG.contentType)'' (read_text image_editing_file)"
    by code_simp
  have e1: "provider_match (read_text image_editing_file) = Some ''kie_ai''"
    by code_simp
  have e2: "content_type_match (read_text image_editing_file) = Some ''image_editing''"
    by code_simp
  have e3: "record_id_match (read_text image_editing_file) = None"
    by code_simp
  have e4: "API_KEY_MAPPING (''kie_ai'', ''image_editing'') = Some ''KIE_AI_API_KEY_IMAGE_EDITING''"
    by code_simp
  define st where "st = \<lparr>updated_count = 0, skipped_count = 0, console = [],
              fs = [([''kie_ai'', ''Flux.ts''], image_editing_file)]\<rparr>"
  from one_anchor_one_annotation [OF h1 h2 h3 h4, of st] obtain pre k p c where
    pc: "provider_match (read_text image_editing_file) = Some p"
      "content_type_match (read_text image_editing_file) = Some c"
    and res: "(\<exists>r. record_id_match (read_text image_editing_file) = Some r \<and> SPECIAL_MODELS r = Some k)
       \<or> (case record_id_match (read_text image_editing_file) of None \<Rightarrow> True
           | Some r \<Rightarrow> SPECIAL_MODELS r = None)
         \<and> API_KEY_MAPPING (p, c) = Some k"
    and tree: \<open>fs (loop_body posix ([''kie_ai'', ''Flux.ts''], image_editing_file) st)
        = map (\<lambda>(f, t). if f = [''kie_ai'', ''Flux.ts''] then (f, ''  provider: "kie_ai",\<newline>  contentType: "image_editing",\<newline>  use_api_key: "KIE_AI_API_KEY_IMAGE_EDITING",\<newline>'') else (f, t)) (fs st)\<close>
    and plain: \<open>write_text posix (read_text image_editing_file) = image_editing_file
        \<and> \<not> sublist ''MODEL_CONFIG.contentType)'' (read_text image_editing_file) \<longrightarrow>
          image_editing_file = write_text posix (pre @ ''contentType: "image_editing",'')
              @ write_text posix [CHR 0x0A]
        \<and> ''  provider: "kie_ai",\<newline>  contentType: "image_editing",\<newline>  use_api_key: "KIE_AI_API_KEY_IMAGE_EDITING",\<newline>''
            = write_text posix (pre @ ''contentType: "image_editing",'')
                @ write_text posix (annotation k) @ write_text posix [CHR 0x0A]\<close>
    by (elim exE conjE)
  from pc e1 e2 have "p = ''kie_ai''" "c = ''image_editing''"
    by simp_all
  with res e3 e4 have k: "k = ''KIE_AI_API_KEY_IMAGE_EDITING''"
    by simp
  from plain h5 h6 have
    a: \<open>image_editing_file = write_text posix (pre @ ''contentType: "image_editing",'')
              @ write_text posix [CHR 0x0A]\<close>
    and b: \<open>''  provider: "kie_ai",\<newline>  contentType: "image_editing",\<newline>  use_api_key: "KIE_AI_API_KEY_IMAGE_EDITING",\<newline>''
            = write_text posix (pre @ ''contentType: "image_editing",'')
                @ write_text posix (annotation k) @ write_text posix [CHR 0x0A]\<close>
    by blast+
  have a': \<open>image_editing_file = pre @ ''contentType: "image_editing",'' @ [CHR 0x0A]\<close>
    using a unfolding posix_def write_text_posix by (simp only: append_assoc)
  have b': \<open>''  provider: "kie_ai",\<newline>  contentType: "image_editing",\<newline>  use_api_key: "KIE_AI_API_KEY_IMAGE_EDITING",\<newline>''
      = pre @ ''contentType: "image_editing",'' @ annotation ''KIE_AI_API_KEY_IMAGE_EDITING'' @ [CHR 0x0A]\<close>
    using b unfolding posix_def write_text_posix k by (simp only: append_assoc)
  have \<open>fs (loop_body posix ([''kie_ai'', ''Flux.ts''], image_editing_file) st)
      = [([''kie_ai'', ''Flux.ts''], ''  provider: "kie_ai",\<newline>  contentType: "image_editing",\<newline>  use_api_key: "KIE_AI_API_KEY_IMAGE_EDITING",\<newline>'')]\<close>
    unfolding tree by (simp add: st_def)
  then have \<open>fs (loop_body posix ([''kie_ai'', ''Flux.ts''], image_editing_file) st)
      = [([''kie_ai'', ''Flux.ts''],
          pre @ ''contentType: "image_editing",'' @ annotation ''KIE_AI_API_KEY_IMAGE_EDITING'' @ [CHR 0x0A])]\<close>
    by (simp only: b')
  with a' show ?thesis
    unfolding st_def by (intro exI conjI)
qed

subsection \<open>C4: already processed\<close>

text \<open>
  C4, as stated, fails: a file whose only \<^verbatim>\<open>use_api_key:\<close> stands in a comment is
  taken as already processed, while the same file without that comment line is annotated.
\<close>

theorem comment_counts_as_processed:
  "process_model_file posix commented_file = (Already_Present, None, [])
   \<and> process_model_file posix (drop 24 commented_file)
     = (Written, Some (drop 24 commented_file @ ''  use_api_key: \"KIE_AI_API_KEY_IMAGE_EDITING\",'' @ [CHR 0x0A]), [])"
  by code_simp

text \<open>
  C4, amended. A file is taken as already processed exactly when the text
  \<^verbatim>\<open>use_api_key:\<close> occurs somewhere in it, wherever that is; then nothing is written,
  nothing is printed and the loop counts the file as skipped.
\<close>

theorem already_processed_iff_text_occurs:
  "(fst (process_model_file linesep file) = Already_Present \<longleftrightarrow> sublist ''use_api_key:'' file)
   \<and> (sublist ''use_api_key:'' file \<longrightarrow>
        process_model_file linesep file = (Already_Present, None, []))
   \<and> (sublist ''use_api_key:'' file \<and> name file_path \<notin> set utility_files \<longrightarrow>
        loop_body linesep (file_path, file) st = st\<lparr>skipped_count := skipped_count st + 1\<rparr>)"
proof (intro conjI impI)
  show "fst (process_model_file linesep file) = Already_Present \<longleftrightarrow> sublist ''use_api_key:'' file"
    using process_cases [of linesep "file"] unfolding field_name_in_file by auto
next
  assume "sublist ''use_api_key:'' file"
  then show "process_model_file linesep file = (Already_Present, None, [])"
    by (simp only: process_Already field_name_in_file)
next
  assume a: "sublist ''use_api_key:'' file \<and> name file_path \<notin> set utility_files"
  then have p: "process_model_file linesep file = (Already_Present, None, [])"
    by (simp only: process_Already field_name_in_file)
  have "\<not> returned Already_Present"
    by simp
  from loop_body_skip [OF _ p this, of file_path st] a
  show "loop_body linesep (file_path, file) st = st\<lparr>skipped_count := skipped_count st + 1\<rparr>"
    by simp
qed

theorem already_processed_iff_text_occurs_witness:
  "sublist ''use_api_key:'' annotated_file
   \<and> process_model_file posix annotated_file = (Already_Present, None, [])
   \<and> loop_body posix ([''kie_ai'', ''Done.ts''], annotated_file) empty_run
     = \<lparr>updated_count = 0, skipped_count = 1, console = [], fs = []\<rparr>"
proof -
  have h: "sublist ''use_api_key:'' annotated_file" by code_simp
  have n: "name [''kie_ai'', ''Done.ts''] \<notin> set utility_files" by code_simp
  from already_processed_iff_text_occurs [of posix annotated_file "[''kie_ai'', ''Done.ts'']" empty_run]
    h n show ?thesis
    by (simp add: empty_run_def)
qed

subsection \<open>C5: category mapping\<close>

text \<open>
  C5 at a file without record id whose pair of provider and content type is a key of
  \<open>API_KEY_MAPPING\<close> and whose contentType value is not followed by a comma: the value of the
  table is \<^verbatim>\<open>RUNWARE_API_KEY_IMAGE_TO_VIDEO\<close>, the run counts the file as updated, and the file
  holds afterwards what it held before, without that value.
\<close>

theorem mapping_value_not_written:
  "main linesep (Some [([''runware'', ''Video.ts''], mapping_no_comma_file)]) =
     \<lparr>updated_count = 1, skipped_count = 0,
      console = [Updated_Line [''runware'', ''Video.ts''], Summary_Header, Updated_Total 1,
                 Skipped_Total 0],
      fs = [([''runware'', ''Video.ts''], mapping_no_comma_file)]\<rparr>
   \<and> provider_match (read_text mapping_no_comma_file) = Some ''runware''
   \<and> content_type_match (read_text mapping_no_comma_file) = Some ''image_to_video''
   \<and> record_id_match (read_text mapping_no_comma_file) = None
   \<and> API_KEY_MAPPING (''runware'', ''image_to_video'') = Some ''RUNWARE_API_KEY_IMAGE_TO_VIDEO''
   \<and> \<not> sublist ''RUNWARE_API_KEY_IMAGE_TO_VIDEO'' mapping_no_comma_file"
  by code_simp

subsection \<open>C6: no mapping\<close>

text \<open>
  C6. When provider and content type are found, the record id is no key of
  \<open>SPECIAL_MODELS\<close> and the pair is no key of \<open>API_KEY_MAPPING\<close>, the file is not written,
  the one line printed names exactly that provider and that content type, and the loop counts
  the file as skipped.
\<close>

theorem unmatched_pair_is_reported:
  assumes "\<not> sublist ''use_api_key:'' (read_text file)"
    and "provider_match (read_text file) = Some provider"
    and "content_type_match (read_text file) = Some content_type"
    and "case record_id_match (read_text file) of None \<Rightarrow> True | Some r \<Rightarrow> SPECIAL_MODELS r = None"
    and "API_KEY_MAPPING (provider, content_type) = None"
    and "name file_path \<notin> set utility_files"
  shows "process_model_file linesep file
           = (No_Mapping_Found, None, [No_Mapping provider content_type])
       \<and> loop_body linesep (file_path, file) st
           = st\<lparr>skipped_count := skipped_count st + 1,
                console := console st @ [No_Mapping provider content_type]\<rparr>"
proof -
  have p: "process_model_file linesep file
      = (No_Mapping_Found, None, [No_Mapping provider content_type])"
    using assms(1-5) by (rule process_No_Mapping)
  from loop_body_skip [OF assms(6) p] p show ?thesis
    by simp
qed

theorem unmatched_pair_is_reported_witness:
  "process_model_file posix unmapped_file
     = (No_Mapping_Found, None, [No_Mapping ''runware'' ''prompt_to_audio''])
   \<and> loop_body posix ([''runware'', ''Audio.ts''], unmapped_file) empty_run
     = \<lparr>updated_count = 0, skipped_count = 1,
        console = [No_Mapping ''runware'' ''prompt_to_audio''], fs = []\<rparr>"
proof -
  have h1: "\<not> sublist ''use_api_key:'' (read_text unmapped_file)" by code_simp
  have h2: "provider_match (read_text unmapped_file) = Some ''runware''" by code_simp
  have h3: "content_type_match (read_text unmapped_file) = Some ''prompt_to_audio''" by code_simp
  have "record_id_match (read_text unmapped_file) = None" by code_simp
  then have h4: "case record_id_match (read_text unmapped_file) of None \<Rightarrow> True
      | Some r \<Rightarrow> SPECIAL_MODELS r = None"
    by simp
  have h5: "API_KEY_MAPPING (''runware'', ''prompt_to_audio'') = None" by code_simp
  have h6: "name [''runware'', ''Audio.ts''] \<notin> set utility_files" by code_simp
  from unmatched_pair_is_reported [OF h1 h2 h3 h4 h5 h6, of posix empty_run] show ?thesis
    by (simp add: empty_run_def)
qed

subsection \<open>C7: missing field\<close>

text \<open>
  C7. When the provider or the content type is not found, the file is not written,
  nothing is printed and the loop counts the file as skipped, whatever the record id is.
\<close>

theorem missing_field_is_silent:
  assumes "provider_match (read_text file) = None \<or> content_type_match (read_text file) = None"
    and "name file_path \<notin> set utility_files"
  shows "process_model_file linesep file
           = (if sublist ''use_api_key:'' (read_text file) then Already_Present else Missing_Field,
              None, [])
       \<and> loop_body linesep (file_path, file) st = st\<lparr>skipped_count := skipped_count st + 1\<rparr>"
proof -
  have p: "process_model_file linesep file
           = (if sublist ''use_api_key:'' (read_text file) then Already_Present else Missing_Field,
              None, [])"
    using assms(1) by (simp add: process_Already process_Missing)
  have "\<not> returned (if sublist ''use_api_key:'' (read_text file) then Already_Present
      else Missing_Field)"
    by simp
  from loop_body_skip [OF assms(2) p this] p show ?thesis
    by simp
qed

theorem missing_field_is_silent_witness:
  "process_model_file posix no_provider_file = (Missing_Field, None, [])
   \<and> loop_body posix ([''kie_ai'', ''Veo3.ts''], no_provider_file) empty_run
     = \<lparr>updated_count = 0, skipped_count = 1, console = [], fs = []\<rparr>
   \<and> record_id_match (read_text no_provider_file) = Some ''8aac94cb-5625-47f4-880c-4f0fd8bd83a1''
   \<and> SPECIAL_MODELS ''8aac94cb-5625-47f4-880c-4f0fd8bd83a1'' = Some ''KIE_AI_API_KEY_VEO3''"
proof -
  have "provider_match (read_text no_provider_file) = None" by code_simp
  then have h1: "provider_match (read_text no_provider_file) = None
      \<or> content_type_match (read_text no_provider_file) = None"
    by simp
  have h2: "name [''kie_ai'', ''Veo3.ts''] \<notin> set utility_files" by code_simp
  have s: "\<not> sublist ''use_api_key:'' (read_text no_provider_file)" by code_simp
  have r: "record_id_match (read_text no_provider_file)
      = Some ''8aac94cb-5625-47f4-880c-4f0fd8bd83a1''"
    by code_simp
  have t: "SPECIAL_MODELS ''8aac94cb-5625-47f4-880c-4f0fd8bd83a1'' = Some ''KIE_AI_API_KEY_VEO3''"
    by code_simp
  from missing_field_is_silent [OF h1 h2, of posix empty_run] s r t show ?thesis
    by (simp add: empty_run_def)
qed

subsection \<open>C8: missing root\<close>

text \<open>
  C8, as stated, fails: with a root that is not a directory the summary is printed (here on
  a platform whose \<^verbatim>\<open>os.linesep\<close> is a line feed; the platform plays no part).
\<close>

theorem missing_root_counterexample:
  "Summary_Header \<in> set (console (main posix None))"
  by (simp add: main_def rglob_ts_def)

text \<open>
  C8, amended. With a root that is not a directory the walk yields nothing: no file
  is processed, and the run ends normally with the summary and both totals zero.
\<close>

theorem missing_root_prints_summary:
  "main linesep None = \<lparr>updated_count = 0, skipped_count = 0,
                console = [Summary_Header, Updated_Total 0, Skipped_Total 0], fs = []\<rparr>"
  by (simp add: main_def rglob_ts_def)

subsection \<open>C9: lines per file\<close>

text \<open>
  C9, as stated, fails: for a tree whose one file already holds the annotation the
  run prints the summary and no line for the file.
\<close>

theorem already_present_prints_nothing:
  "console (main posix (Some [([''kie_ai'', ''Done.ts''], annotated_file)]))
     = [Summary_Header, Updated_Total 0, Skipped_Total 1]"
  by code_simp

text \<open>
  C9, amended. For a candidate file the loop prints one line when the file was
  written (\<^verbatim>\<open>Updated\<close>), one line when no table has an entry (\<^verbatim>\<open>No mapping\<close> with the
  provider and the content type), and nothing when the annotation is already present or a
  field is missing.
\<close>

theorem per_file_lines:
  assumes "name file_path \<notin> set utility_files"
  shows "console (loop_body linesep (file_path, file) st)
           = console st @
             (case fst (process_model_file linesep file) of
                Written \<Rightarrow> [Updated_Line file_path]
              | No_Mapping_Found \<Rightarrow>
                  [No_Mapping (the (provider_match (read_text file)))
                              (the (content_type_match (read_text file)))]
              | Already_Present \<Rightarrow> []
              | Missing_Field \<Rightarrow> [])"
  using process_cases [of linesep "file"] assms
  by (auto simp: loop_body_def Let_def)

theorem per_file_lines_witness:
  "console (loop_body posix ([''kie_ai'', ''Veo3.ts''], veo3_file) empty_run)
     = [Updated_Line [''kie_ai'', ''Veo3.ts'']]
   \<and> console (loop_body posix ([''kie_ai'', ''Done.ts''], annotated_file) empty_run) = []"
proof -
  have h1: "name [''kie_ai'', ''Veo3.ts''] \<notin> set utility_files" by code_simp
  have h2: "name [''kie_ai'', ''Done.ts''] \<notin> set utility_files" by code_simp
  have e1: "fst (process_model_file posix veo3_file) = Written" by code_simp
  have e2: "fst (process_model_file posix annotated_file) = Already_Present" by code_simp
  from per_file_lines [OF h1, of posix veo3_file empty_run]
    per_file_lines [OF h2, of posix annotated_file empty_run]
  show ?thesis
    by (simp add: e1 e2 empty_run_def)
qed

subsection \<open>C10: provider values\<close>

text \<open>
  C10, as stated, fails: a provider value that holds a quote is extracted up to that quote,
  and a file whose provider declaration holds a hyphen but whose text has a second
  \<^verbatim>\<open>provider:\<close> further down (here in a comment) has the second value extracted; both files
  are annotated and written.
\<close>

theorem other_characters_still_extracted:
  \<open>provider_match (read_text quote_in_value_file) = Some ''kie_ai''
   \<and> process_model_file posix quote_in_value_file =
       (Written,
        Some ''{ provider: "kie_ai's", contentType: "image_editing",\<newline>  use_api_key: "KIE_AI_API_KEY_IMAGE_EDITING", }'',
        [])
   \<and> provider_match (read_text second_provider_file) = Some ''kie_ai''
   \<and> process_model_file posix second_provider_file =
       (Written,
        Some ''{ provider: "kie-ai", contentType: "image_editing",\<newline>  use_api_key: "KIE_AI_API_KEY_IMAGE_EDITING", } // provider: "kie_ai"'',
        [])\<close>
  by code_simp

text \<open>
  C10, amended. A provider that the pattern extracts is made of word characters only. A file
  in whose text \<^verbatim>\<open>provider:\<close> occurs once, followed by spaces and a quoted value that holds
  no quote and holds some character that is no word character, has no provider for the
  script: nothing is written, nothing is printed and the loop counts the file as skipped,
  whatever its record id is.
\<close>

theorem provider_needs_word_characters:
  assumes "read_text file = pre @ ''provider:'' @ ws @ q # v @ q' # post"
    and "\<forall>c\<in>set ws. is_space c" and "is_quote q" and "is_quote q'"
    and "\<forall>c\<in>set v. \<not> is_quote c" and "\<exists>c\<in>set v. \<not> is_word c"
    and "\<forall>t\<in>set (suffixes (read_text file)).
           prefix ''provider:'' t \<longrightarrow> t = ''provider:'' @ ws @ q # v @ q' # post"
    and "name file_path \<notin> set utility_files"
  shows "provider_match (read_text file) = None
       \<and> process_model_file linesep file
           = (if sublist ''use_api_key:'' (read_text file) then Already_Present else Missing_Field,
              None, [])
       \<and> loop_body linesep (file_path, file) st = st\<lparr>skipped_count := skipped_count st + 1\<rparr>
       \<and> (\<forall>s p. provider_match s = Some p \<longrightarrow> p \<noteq> [] \<and> (\<forall>c\<in>set p. is_word c))"
proof -
  have "field_at ''provider:'' is_word t = None" if t: "t \<in> set (suffixes (read_text file))" for t
  proof (cases "prefix ''provider:'' t")
    case True
    with assms(7) t have "t = ''provider:'' @ ws @ q # v @ (q' # post)"
      by blast
    then show ?thesis
      by (simp only: provider_pattern_rejects [OF assms(2,3,5,6)])
  next
    case False
    then show ?thesis
      unfolding field_at_def by (simp only: if_False)
  qed
  then have n: "provider_match (read_text file) = None"
    by (simp add: provider_match_def re_search_None)
  then have p: "process_model_file linesep file
      = (if sublist ''use_api_key:'' (read_text file) then Already_Present else Missing_Field,
         None, [])"
    by (simp add: process_Already process_Missing)
  have "\<not> returned (if sublist ''use_api_key:'' (read_text file) then Already_Present
      else Missing_Field)"
    by simp
  from loop_body_skip [OF assms(8) p this, of st]
  have "loop_body linesep (file_path, file) st = st\<lparr>skipped_count := skipped_count st + 1\<rparr>"
    by simp
  with n p provider_match_word show ?thesis
    by blast
qed

theorem provider_needs_word_characters_witness:
  "provider_match (read_text hyphen_file) = None
   \<and> process_model_file posix hyphen_file = (Missing_Field, None, [])
   \<and> loop_body posix ([''kie_ai'', ''Veo3.ts''], hyphen_file) empty_run
     = \<lparr>updated_count = 0, skipped_count = 1, console = [], fs = []\<rparr>
   \<and> record_id_match (read_text hyphen_file) = Some ''8aac94cb-5625-47f4-880c-4f0fd8bd83a1''
   \<and> SPECIAL_MODELS ''8aac94cb-5625-47f4-880c-4f0fd8bd83a1'' = Some ''KIE_AI_API_KEY_VEO3''"
proof -
  define post :: string where
    \<open>post = '', contentType: "prompt_to_video", recordId: "8aac94cb-5625-47f4-880c-4f0fd8bd83a1",''\<close>
  have rd: "read_text hyphen_file = hyphen_file"
    by code_simp
  have h1: "read_text hyphen_file
      = [] @ ''provider:'' @ '' '' @ CHR 0x22 # ''kie-ai'' @ CHR 0x22 # post"
    unfolding rd by (simp add: hyphen_file_def post_def)
  have h2: "\<forall>c\<in>set '' ''. is_space c"
    by (simp add: is_space_def)
  have h3: "is_quote (CHR 0x22)"
    by (simp add: is_quote_def)
  have h5: "\<forall>c\<in>set ''kie-ai''. \<not> is_quote c"
    by (simp add: is_quote_def)
  have h6: "\<exists>c\<in>set ''kie-ai''. \<not> is_word c"
    by (simp add: is_word_def)
  have "\<forall>t\<in>set (suffixes hyphen_file). prefix ''provider:'' t \<longrightarrow> t = hyphen_file"
    by code_simp
  then have h7: "\<forall>t\<in>set (suffixes (read_text hyphen_file)).
      prefix ''provider:'' t \<longrightarrow> t = ''provider:'' @ '' '' @ CHR 0x22 # ''kie-ai'' @ CHR 0x22 # post"
    using h1 unfolding rd by simp
  have h8: "name [''kie_ai'', ''Veo3.ts''] \<notin> set utility_files"
    by code_simp
  have s: "\<not> sublist ''use_api_key:'' (read_text hyphen_file)"
    by code_simp
  have r: "record_id_match (read_text hyphen_file) = Some ''8aac94cb-5625-47f4-880c-4f0fd8bd83a1''"
    by code_simp
  have t: "SPECIAL_MODELS ''8aac94cb-5625-47f4-880c-4f0fd8bd83a1'' = Some ''KIE_AI_API_KEY_VEO3''"
    by code_simp
  from provider_needs_word_characters [OF h1 h2 h3 h3 h5 h6 h7 h8, of posix empty_run] s r t
  show ?thesis
    by (simp add: empty_run_def)
qed

end
